theory Spec2Isabelle
  imports Main "HOL-Library.Word" "HOL-Library.Signed_Division"
begin

unbundle bit_operations_syntax

section \<open>Low-power LCD clock: the 64 Hz tick handler and its renderers\<close>

text \<open>
  A shallow embedding of \<^verbatim>\<open>LCDClock.ino\<close>. The target named in the file header is the
  AVR128DA48 (avr-gcc): \<^verbatim>\<open>int\<close> and \<^verbatim>\<open>unsigned int\<close> are 16 bits wide,
  \<^verbatim>\<open>unsigned long\<close> and \<^verbatim>\<open>uint32_t\<close> are 32 bits wide, and the integer promotions
  take a \<^verbatim>\<open>uint8_t\<close> to \<^verbatim>\<open>int\<close> and a \<^verbatim>\<open>uint16_t\<close> to \<^verbatim>\<open>unsigned int\<close>.
\<close>

type_synonym uint8_t = "8 word"
type_synonym uint16_t = "16 word"
type_synonym uint32_t = "32 word"

subsection \<open>Seven segment definitions\<close>

definition CharLen :: int where
  "CharLen = 15"

definition Char :: "uint8_t list" where
  "Char = [0x7E, 0x30, 0x6D, 0x79, 0x33, 0x5B, 0x5F, 0x70, 0x7F, 0x7B,
           0x00, 0x01, 0x63, 0x4E, 0x3E]"

definition Space :: int where "Space = 10"
definition Minus :: int where "Minus = 11"
definition Degree :: int where "Degree = 12"
definition Celsius :: int where "Celsius = 13"
definition Vee :: int where "Vee = 14"

text \<open>
  The read \<^verbatim>\<open>Char[i]\<close>. The source checks no index; a read outside the 15 entries
  returns whatever lies next to the table in memory, which is \<open>None\<close> here.
\<close>

definition Char_at :: "int \<Rightarrow> uint8_t option" where
  "Char_at i = (if 0 \<le> i \<and> i < CharLen then Some (Char ! nat i) else None)"

subsection \<open>Ports\<close>

datatype port = PORTA | PORTB | PORTC | PORTD | PORTE | PORTF

text \<open>The pin masks of the device header: \<^verbatim>\<open>PINn_bm\<close> is bit \<open>n\<close>.\<close>

definition PIN0_bm :: uint8_t where "PIN0_bm = 0x01"
definition PIN1_bm :: uint8_t where "PIN1_bm = 0x02"
definition PIN2_bm :: uint8_t where "PIN2_bm = 0x04"
definition PIN3_bm :: uint8_t where "PIN3_bm = 0x08"
definition PIN4_bm :: uint8_t where "PIN4_bm = 0x10"
definition PIN5_bm :: uint8_t where "PIN5_bm = 0x20"

definition Digit :: "port list" where
  "Digit = [PORTD, PORTC, PORTA, PORTB]"

text \<open>\<^verbatim>\<open>PortSetup\<close>: the direction register of each port, that is, the lines the clock drives.\<close>

definition PortSetup :: "port \<Rightarrow> uint8_t" where
  "PortSetup p = (if p = PORTE then PIN0_bm OR PIN1_bm
                  else if p = PORTF then PIN5_bm OR PIN4_bm
                  else 0xFF)"

text \<open>
  Every store to an output register is recorded, in program order: a store to
  \<^verbatim>\<open>OUTTGL\<close> inverts the lines of the mask, a store to \<^verbatim>\<open>OUT\<close> sets all eight lines.
\<close>

datatype event = Toggle port uint8_t | Write port "uint8_t option"

text \<open>
  The state the handler owns: its two static variables and the \<^verbatim>\<open>OUT\<close> register of
  each port. A register holds \<open>None\<close> once a byte read from outside the glyph table
  has been stored in it.
\<close>

record state =
  cycles :: uint8_t
  halfsecs :: uint32_t
  OUT :: "port \<Rightarrow> uint8_t option"
  trace :: "event list"

definition out_tgl :: "port \<Rightarrow> uint8_t \<Rightarrow> state \<Rightarrow> state" where
  "out_tgl p m s =
     s\<lparr>OUT := (OUT s)(p := map_option (\<lambda>v. v XOR m) (OUT s p)),
       trace := trace s @ [Toggle p m]\<rparr>"

definition out_set :: "port \<Rightarrow> uint8_t option \<Rightarrow> state \<Rightarrow> state" where
  "out_set p v s = s\<lparr>OUT := (OUT s)(p := v), trace := trace s @ [Write p v]\<rparr>"

text \<open>Power-on: the static variables are zero and so are the output registers.\<close>

definition init :: state where
  "init = \<lparr>cycles = 0, halfsecs = 0, OUT = (\<lambda>p. Some 0), trace = []\<rparr>"

subsection \<open>What the handler reads\<close>

text \<open>
  One invocation reads the button pins, the two temperature calibration words of the
  signature row and, when it measures, one conversion result. The pin levels are taken
  once per invocation: every read of \<^verbatim>\<open>PORTE.IN\<close> in one invocation sees the same byte.
  A renderer starts one conversion and waits until the converter clears its start flag;
  the converter is taken to finish, and \<open>ADC0_RES\<close> is the result it then holds. The
  stores that configure the converter and the store that clears the interrupt flag
  change no variable and no output line of the clock, and are left out.
\<close>

record inputs =
  PORTE_IN :: uint8_t
  ADC0_RES :: uint16_t
  TEMPSENSE0 :: uint16_t
  TEMPSENSE1 :: uint16_t

definition MinsButton :: "inputs \<Rightarrow> bool" where
  "MinsButton inp = (PORTE_IN inp AND PIN2_bm = 0)"

definition HoursButton :: "inputs \<Rightarrow> bool" where
  "HoursButton inp = (PORTE_IN inp AND PIN3_bm = 0)"

subsection \<open>Display Temperature\<close>

text \<open>
  Line 112: \<^verbatim>\<open>offset - adc_reading\<close> is an \<^verbatim>\<open>unsigned int\<close> difference (16 bits, wrapping),
  widened to 32 bits before the multiplication.
\<close>

definition temp_kelvin :: "uint16_t \<Rightarrow> uint16_t \<Rightarrow> uint16_t \<Rightarrow> uint32_t" where
  "temp_kelvin offset slope adc_reading =
     drop_bit 12 ((ucast (offset - adc_reading) :: uint32_t) * ucast slope + 0x0800)"

text \<open>
  Modelled from the spec: \<^verbatim>\<open>abs\<close>, which this source file uses and does not define.
  The spec gives \<open>celsius = |kelvin - 273|\<close>, with \<open>|0 - 273| = 273\<close>: the absolute value
  of the difference read as a signed number.
\<close>

definition abs_spec :: "uint32_t \<Rightarrow> int" where
  "abs_spec x = \<bar>sint x\<bar>"

text \<open>Line 113: the result is stored in the 16-bit \<^verbatim>\<open>int celsius\<close>.\<close>

definition temp_celsius :: "uint32_t \<Rightarrow> int" where
  "temp_celsius kelvin = sint (word_of_int (abs_spec (kelvin - 273)) :: 16 word)"

text \<open>The two computed indices into the glyph table; C division truncates towards zero.\<close>

definition temp_tens_index :: "int \<Rightarrow> int" where
  "temp_tens_index celsius = celsius sdiv 10"

definition temp_units_index :: "int \<Rightarrow> int" where
  "temp_units_index celsius = celsius smod 10"

definition DisplayTemp :: "inputs \<Rightarrow> state \<Rightarrow> state" where
  "DisplayTemp inp s =
     (let offset = TEMPSENSE1 inp;
          slope = TEMPSENSE0 inp;
          adc_reading = ADC0_RES inp;
          kelvin = temp_kelvin offset slope adc_reading;
          celsius = temp_celsius kelvin;
          s0 = (if kelvin < 273 then out_set (Digit ! 0) (Char_at Minus) s
                else out_set (Digit ! 0) (Char_at (temp_tens_index celsius)) s);
          s1 = out_set (Digit ! 1) (Char_at (temp_units_index celsius)) s0;
          s2 = out_set (Digit ! 2) (Char_at Degree) s1;
          units = Char_at Celsius;
          s3 = out_set (Digit ! 3) units s2
      in out_set PORTF (map_option (\<lambda>u. drop_bit 1 u AND PIN5_bm) units) s3)"

subsection \<open>Display Voltage\<close>

definition voltage_of :: "uint16_t \<Rightarrow> uint16_t" where
  "voltage_of adc_reading = adc_reading div 50"

definition DisplayVoltage :: "inputs \<Rightarrow> state \<Rightarrow> state" where
  "DisplayVoltage inp s =
     (let adc_reading = ADC0_RES inp;
          voltage = voltage_of adc_reading;
          s0 = out_set (Digit ! 0) (Char_at Space) s;
          s1 = out_set (Digit ! 1)
                 (map_option (\<lambda>c. c OR 0x80) (Char_at (uint (voltage div 10)))) s0;
          s2 = out_set (Digit ! 2) (Char_at (uint (voltage mod 10))) s1;
          units = Char_at Vee;
          s3 = out_set (Digit ! 3) units s2
      in out_set PORTF (map_option (\<lambda>u. drop_bit 1 u AND PIN5_bm) units) s3)"

subsection \<open>Display Time\<close>

text \<open>The build-time option \<^verbatim>\<open>TWELVEHOUR\<close> is the first argument.\<close>

definition time_minutes :: "uint32_t \<Rightarrow> uint8_t" where
  "time_minutes hs = ucast ((hs div 120) mod 60)"

definition time_hours :: "bool \<Rightarrow> uint32_t \<Rightarrow> uint8_t" where
  "time_hours twelvehour hs =
     (if twelvehour then ucast ((hs div 7200) mod 12 + 1) else ucast ((hs div 7200) mod 24))"

definition DisplayTime :: "bool \<Rightarrow> uint32_t \<Rightarrow> state \<Rightarrow> state" where
  "DisplayTime twelvehour hs s =
     (let minutes = time_minutes hs;
          hours = time_hours twelvehour hs;
          s0 = out_set (Digit ! 0) (Char_at (uint hours div 10)) s;
          s1 = out_set (Digit ! 1) (Char_at (uint hours mod 10)) s0;
          s2 = out_set (Digit ! 2) (Char_at (uint minutes div 10)) s1;
          units = Char_at (uint minutes mod 10);
          s3 = out_set (Digit ! 3) units s2;
          colon = (ucast (push_bit 4 (hs AND 1)) :: uint8_t)
      in out_set PORTF (map_option (\<lambda>u. (drop_bit 1 u AND PIN5_bm) OR colon) units) s3)"

subsection \<open>Interrupt service routine at 64 Hz\<close>

text \<open>Lines 170 to 172: toggle the segments, the two commons, segment 1A and the colon.\<close>

definition toggle_segments :: "state \<Rightarrow> state" where
  "toggle_segments s =
     out_tgl PORTF (PIN5_bm OR PIN4_bm)
       (out_tgl PORTE (PIN0_bm OR PIN1_bm)
         (fold (\<lambda>p. out_tgl (Digit ! p) 0xFF) [0, 1, 2, 3] s))"

text \<open>Line 179, the normal advance, and line 180, the half-second ticks within the minute.\<close>

definition advance :: "uint32_t \<Rightarrow> uint32_t" where
  "advance hs = (hs + 1) mod 172800"

definition ticks_of :: "uint32_t \<Rightarrow> uint8_t" where
  "ticks_of hs = ucast (hs mod 120)"

text \<open>Lines 182 and 183: the two button adjustments, two separate \<^verbatim>\<open>if\<close> statements.\<close>

definition mins_adjust :: "uint32_t \<Rightarrow> uint32_t" where
  "mins_adjust hs = ((hs div 7200) * 60 + (hs div 120 + 1) mod 60) * 120"

definition hours_adjust :: "uint32_t \<Rightarrow> uint32_t" where
  "hours_adjust hs = hs + 7200"

definition adjust :: "inputs \<Rightarrow> uint32_t \<Rightarrow> uint32_t" where
  "adjust inp hs =
     (let h1 = (if MinsButton inp then mins_adjust hs else hs)
      in if HoursButton inp then hours_adjust h1 else h1)"

definition isr :: "bool \<Rightarrow> inputs \<Rightarrow> state \<Rightarrow> state" where
  "isr twelvehour inp s =
     (let s1 = toggle_segments s;
          c = cycles s1 + 1
      in if c < 32 then s1\<lparr>cycles := c\<rparr>
         else
           (let h = advance (halfsecs s1);
                ticks = ticks_of h;
                h' = adjust inp h;
                s2 = s1\<lparr>cycles := 0, halfsecs := h'\<rparr>
            in if MinsButton inp \<or> HoursButton inp \<or> ticks < 108 then DisplayTime twelvehour h' s2
               else if ticks = 108 then DisplayVoltage inp s2
               else if ticks = 114 then DisplayTemp inp s2
               else s2))"

text \<open>A run of ticks, one input per tick, first tick first.\<close>

fun run :: "bool \<Rightarrow> inputs list \<Rightarrow> state \<Rightarrow> state" where
  "run twelvehour [] s = s"
| "run twelvehour (inp # inps) s = run twelvehour inps (isr twelvehour inp s)"


section \<open>Properties\<close>

subsection \<open>The counters and the time of day\<close>

lemma toggle_segments_fields:
  "cycles (toggle_segments s) = cycles s" "halfsecs (toggle_segments s) = halfsecs s"
  by (simp_all add: toggle_segments_def out_tgl_def)

lemma out_set_fields:
  "cycles (out_set p v s) = cycles s" "halfsecs (out_set p v s) = halfsecs s"
  by (simp_all add: out_set_def)

lemma DisplayTime_fields:
  "cycles (DisplayTime tw h s) = cycles s" "halfsecs (DisplayTime tw h s) = halfsecs s"
  by (simp_all add: DisplayTime_def Let_def out_set_fields)

lemma DisplayVoltage_fields:
  "cycles (DisplayVoltage inp s) = cycles s" "halfsecs (DisplayVoltage inp s) = halfsecs s"
  by (simp_all add: DisplayVoltage_def Let_def out_set_fields)

lemma DisplayTemp_fields:
  "cycles (DisplayTemp inp s) = cycles s" "halfsecs (DisplayTemp inp s) = halfsecs s"
  by (simp_all add: DisplayTemp_def Let_def out_set_fields)

lemmas renderer_fields = DisplayTime_fields DisplayVoltage_fields DisplayTemp_fields

lemma halfsecs_isr:
  "halfsecs (isr tw inp s) =
     (if cycles s + 1 < 32 then halfsecs s else adjust inp (advance (halfsecs s)))"
  by (simp add: isr_def Let_def toggle_segments_fields renderer_fields)

lemma cycles_isr:
  "cycles (isr tw inp s) = (if cycles s + 1 < 32 then cycles s + 1 else 0)"
  by (simp add: isr_def Let_def toggle_segments_fields renderer_fields)

lemma advance_less: "advance h < 172800"
  unfolding advance_def by (rule word_mod_less_divisor) simp

lemma unat_advance_less: "unat (advance h) < 172800"
  using advance_less [of h] by (simp add: word_less_nat_alt)

lemma unat_mins_adjust:
  assumes "unat h < 172800"
  shows "unat (mins_adjust h) = ((unat h div 7200) * 60 + (unat h div 120 + 1) mod 60) * 120"
  using assms
  by (simp add: mins_adjust_def) (simp add: unat_word_ariths unat_div unat_mod)

lemma mins_adjust_less:
  assumes "unat h < 172800"
  shows "unat (mins_adjust h) < 172800"
proof -
  define a where "a = unat h div 7200"
  define b where "b = (unat h div 120 + 1) mod 60"
  have "a \<le> 23" using assms by (simp add: a_def)
  moreover have "b \<le> 59" by (simp add: b_def)
  ultimately have "(a * 60 + b) * 120 < 172800" by simp
  then show ?thesis unfolding unat_mins_adjust [OF assms] a_def b_def .
qed

lemma unat_hours_adjust:
  assumes "unat h < 172800"
  shows "unat (hours_adjust h) = unat h + 7200"
  using assms by (simp add: hours_adjust_def unat_word_ariths)

lemma mins_adjust_components:
  fixes n :: nat
  defines "m \<equiv> ((n div 7200) * 60 + (n div 120 + 1) mod 60) * 120"
  shows "m mod 120 = 0" "(m div 120) mod 60 = (n div 120 + 1) mod 60" "m div 7200 = n div 7200"
proof -
  show "m mod 120 = 0" by (simp add: m_def)
  show "(m div 120) mod 60 = (n div 120 + 1) mod 60" by (simp add: m_def)
  have "m div 120 = (n div 7200) * 60 + (n div 120 + 1) mod 60" by (simp add: m_def)
  moreover have "m div 7200 = (m div 120) div 60" by (simp add: div_mult2_eq)
  ultimately show "m div 7200 = n div 7200" by simp
qed

lemma add_hour_components:
  fixes x :: nat
  shows "(x + 7200) mod 120 = x mod 120" "((x + 7200) div 120) mod 60 = (x div 120) mod 60"
    "(x + 7200) div 7200 = x div 7200 + 1" "(x + 7200) mod 7200 = x mod 7200"
proof -
  have e: "(7200::nat) = 60 * 120" by simp
  have "(x + 60 * 120) mod 120 = x mod 120" by (rule mod_mult_self1)
  then show "(x + 7200) mod 120 = x mod 120" by (simp only: e)
  have "(x + 60 * 120) div 120 = 60 + x div 120" by (rule div_mult_self1) simp
  then have "(x + 7200) div 120 = x div 120 + 60" by (simp only: e add.commute)
  then show "((x + 7200) div 120) mod 60 = (x div 120) mod 60" by simp
  show "(x + 7200) div 7200 = x div 7200 + 1" by (rule div_add_self2) simp
  show "(x + 7200) mod 7200 = x mod 7200" by (rule mod_add_self2)
qed


lemma boundary_iff: "unat (c :: 8 word) < 32 \<Longrightarrow> (c + 1 < 32) = (unat c + 1 < 32)"
  by (simp add: word_less_nat_alt unat_word_ariths)

lemma unat_cycles_succ: "unat (c :: 8 word) + 1 < 32 \<Longrightarrow> unat (c + 1) = unat c + 1"
  by (simp add: unat_word_ariths)

lemma adjust_no_buttons: "\<not> MinsButton inp \<Longrightarrow> \<not> HoursButton inp \<Longrightarrow> adjust inp h = h"
  by (simp add: adjust_def)

lemma unat_adjust_less:
  assumes "unat h < 172800"
  shows "unat (adjust inp h) < 180000" "\<not> HoursButton inp \<Longrightarrow> unat (adjust inp h) < 172800"
proof -
  let ?m = "if MinsButton inp then mins_adjust h else h"
  have ml: "unat ?m < 172800" using assms mins_adjust_less by simp
  show "\<not> HoursButton inp \<Longrightarrow> unat (adjust inp h) < 172800"
    using ml by (simp add: adjust_def)
  show "unat (adjust inp h) < 180000"
    using ml unat_hours_adjust [OF ml] by (simp add: adjust_def Let_def)
qed

lemma run_halfsecs_no_buttons:
  assumes "unat (cycles s) < 32" "length inps \<le> 32"
    "\<forall>i \<in> set inps. \<not> MinsButton i \<and> \<not> HoursButton i"
  shows "halfsecs (run tw inps s) =
           (if length inps < 32 - unat (cycles s) then halfsecs s else advance (halfsecs s))"
  using assms
proof (induction inps arbitrary: s)
  case Nil
  then show ?case by simp
next
  case (Cons i inps)
  let ?s' = "isr tw i s"
  have nb: "\<not> MinsButton i" "\<not> HoursButton i" using Cons.prems(3) by simp_all
  have rest: "\<forall>i \<in> set inps. \<not> MinsButton i \<and> \<not> HoursButton i" using Cons.prems(3) by simp
  show ?case
  proof (cases "unat (cycles s) + 1 < 32")
    case True
    then have b: "cycles s + 1 < 32" using boundary_iff Cons.prems(1) by simp
    have c': "unat (cycles ?s') = unat (cycles s) + 1"
      using b True by (simp add: cycles_isr unat_cycles_succ)
    have h': "halfsecs ?s' = halfsecs s" using b by (simp add: halfsecs_isr)
    have "halfsecs (run tw inps ?s') =
            (if length inps < 32 - unat (cycles ?s') then halfsecs ?s' else advance (halfsecs ?s'))"
      using Cons.prems(2) True c' rest by (intro Cons.IH) simp_all
    moreover have "(length inps < 32 - (unat (cycles s) + 1)) =
                     (length (i # inps) < 32 - unat (cycles s))" by auto
    ultimately show ?thesis by (simp add: c' h')
  next
    case False
    then have b: "\<not> cycles s + 1 < 32" using boundary_iff Cons.prems(1) by simp
    have c': "cycles ?s' = 0" using b by (simp add: cycles_isr)
    have h': "halfsecs ?s' = advance (halfsecs s)"
      using b nb by (simp add: halfsecs_isr adjust_no_buttons)
    have "halfsecs (run tw inps ?s') =
            (if length inps < 32 - unat (cycles ?s') then halfsecs ?s' else advance (halfsecs ?s'))"
      using Cons.prems(2) rest by (intro Cons.IH) (simp_all add: c')
    moreover have "\<not> length (i # inps) < 32 - unat (cycles s)" using False by auto
    moreover have "length inps < 32" using Cons.prems(2) by simp
    ultimately show ?thesis by (simp add: c' h')
  qed
qed

lemma cycles_isr_less: "cycles (isr tw inp s) < 32"
  by (simp add: cycles_isr)

lemma cycles_run_less: "cycles s < 32 \<Longrightarrow> cycles (run tw inps s) < 32"
  by (induction inps arbitrary: s) (simp_all add: cycles_isr_less)

lemma cycles_run_init_less: "cycles (run tw inps init) < 32"
  by (rule cycles_run_less) (simp add: init_def)

text \<open>
  Claim C2. In any run of 32 consecutive ticks on which no button is held, starting from a
  counter below 32, \<open>halfsecs\<close> changes on exactly one tick, the one on which \<open>cycles\<close>
  reaches 32, and there it becomes \<open>(halfsecs + 1) mod 172800\<close>: one unit more, and 0 after
  172799. The counter is below 32 at power-on and after every tick
  (\<open>cycles_run_init_less\<close>), so this covers every 32 consecutive ticks of an execution.
\<close>

theorem halfsecs_advances_once_per_32_ticks:
  assumes "cycles s < 32" and "length inps = 32"
    and "\<forall>i \<in> set inps. \<not> MinsButton i \<and> \<not> HoursButton i"
  shows "(\<forall>k \<le> 32. halfsecs (run tw (take k inps) s) =
            (if k < 32 - unat (cycles s) then halfsecs s else (halfsecs s + 1) mod 172800))
         \<and> halfsecs (run tw inps s) = (halfsecs s + 1) mod 172800
         \<and> (halfsecs s = 172799 \<longrightarrow> halfsecs (run tw inps s) = 0)
         \<and> (halfsecs s < 172799 \<longrightarrow> halfsecs (run tw inps s) = halfsecs s + 1)"
proof -
  have c: "unat (cycles s) < 32" using assms(1) by (simp add: word_less_nat_alt)
  have take_k: "halfsecs (run tw (take k inps) s) =
      (if k < 32 - unat (cycles s) then halfsecs s else (halfsecs s + 1) mod 172800)"
    if "k \<le> 32" for k
  proof -
    have "\<forall>i \<in> set (take k inps). \<not> MinsButton i \<and> \<not> HoursButton i"
      using assms(3) by (meson in_set_takeD)
    moreover have "length (take k inps) = k" using that assms(2) by simp
    ultimately show ?thesis
      using run_halfsecs_no_buttons [OF c, of "take k inps" tw] that
      by (simp add: advance_def)
  qed
  have full: "halfsecs (run tw inps s) = (halfsecs s + 1) mod 172800"
  proof -
    have "\<not> 32 < 32 - unat (cycles s)" by simp
    then show ?thesis using take_k [of 32] assms(2) by simp
  qed
  have wrap: "halfsecs s = 172799 \<longrightarrow> halfsecs (run tw inps s) = 0"
    unfolding full by simp
  have plain: "halfsecs s < 172799 \<longrightarrow> halfsecs (run tw inps s) = halfsecs s + 1"
  proof
    assume l: "halfsecs s < 172799"
    then have "unat (halfsecs s) < 172799" by (simp add: word_less_nat_alt)
    then have "halfsecs s + 1 < 172800"
      by (simp add: word_less_nat_alt unat_word_ariths)
    then show "halfsecs (run tw inps s) = halfsecs s + 1"
      unfolding full by (simp add: word_mod_less_divisor mod_word_less)
  qed
  show ?thesis using take_k full wrap plain by blast
qed


theorem halfsecs_advances_once_per_32_ticks_witness:
  "cycles (init\<lparr>cycles := 5, halfsecs := 172799\<rparr>) < 32
   \<and> length (replicate 32 \<lparr>PORTE_IN = 0xFF, ADC0_RES = 0, TEMPSENSE0 = 0, TEMPSENSE1 = 0\<rparr>) = 32
   \<and> \<not> MinsButton \<lparr>PORTE_IN = 0xFF, ADC0_RES = 0, TEMPSENSE0 = 0, TEMPSENSE1 = 0\<rparr>
   \<and> \<not> HoursButton \<lparr>PORTE_IN = 0xFF, ADC0_RES = 0, TEMPSENSE0 = 0, TEMPSENSE1 = 0\<rparr>
   \<and> halfsecs (run False (replicate 32 \<lparr>PORTE_IN = 0xFF, ADC0_RES = 0, TEMPSENSE0 = 0, TEMPSENSE1 = 0\<rparr>)
         (init\<lparr>cycles := 5, halfsecs := 172799\<rparr>)) = 0"
  using halfsecs_advances_once_per_32_ticks
    [of "init\<lparr>cycles := 5, halfsecs := 172799\<rparr>"
        "replicate 32 \<lparr>PORTE_IN = 0xFF, ADC0_RES = 0, TEMPSENSE0 = 0, TEMPSENSE1 = 0\<rparr>" False]
  by (simp add: init_def MinsButton_def HoursButton_def PIN2_bm_def PIN3_bm_def)

lemma succ_same_minute:
  fixes n :: nat
  assumes "n mod 120 \<noteq> 119"
  shows "Suc n div 120 = n div 120" "Suc n div 7200 = n div 7200"
proof -
  show m: "Suc n div 120 = n div 120" using assms by (simp add: div_Suc mod_Suc)
  have "Suc n div 7200 = (Suc n div 120) div 60" "n div 7200 = (n div 120) div 60"
    by (simp_all add: div_mult2_eq)
  then show "Suc n div 7200 = n div 7200" using m by simp
qed

lemma unat_advance_plain:
  assumes "unat h < 172800" "unat h mod 120 \<noteq> 119"
  shows "unat (advance h) = Suc (unat h)"
proof -
  have "unat h \<noteq> 172799" using assms(2) by auto
  then have l: "Suc (unat h) < 172800" using assms(1) by simp
  then have "unat (h + 1) = Suc (unat h)" by (simp add: unat_word_ariths)
  then show ?thesis using l by (simp add: advance_def unat_mod)
qed

text \<open>
  Claim C4 as stated fails when the old time of day is the time before the tick, because
  the normal advance of line 179 comes first. From 00:00:59.5 (\<open>halfsecs = 119\<close>) one
  boundary tick with the minutes button held gives 240, so the minute goes from 0 to 2 and
  not to 1; from 23:59:59.5 (\<open>halfsecs = 172799\<close>) it gives 120, so the hour goes from 23
  down to 0.
\<close>

theorem mins_button_from_time_before_tick:
  "MinsButton \<lparr>PORTE_IN = 0xFB, ADC0_RES = 0, TEMPSENSE0 = 0, TEMPSENSE1 = 0\<rparr>
   \<and> \<not> HoursButton \<lparr>PORTE_IN = 0xFB, ADC0_RES = 0, TEMPSENSE0 = 0, TEMPSENSE1 = 0\<rparr>
   \<and> (unat (halfsecs (init\<lparr>cycles := 31, halfsecs := 119\<rparr>)) div 120) mod 60 = 0
   \<and> halfsecs (isr False \<lparr>PORTE_IN = 0xFB, ADC0_RES = 0, TEMPSENSE0 = 0, TEMPSENSE1 = 0\<rparr>
        (init\<lparr>cycles := 31, halfsecs := 119\<rparr>)) = 240
   \<and> (unat (halfsecs (isr False \<lparr>PORTE_IN = 0xFB, ADC0_RES = 0, TEMPSENSE0 = 0, TEMPSENSE1 = 0\<rparr>
        (init\<lparr>cycles := 31, halfsecs := 119\<rparr>))) div 120) mod 60 = 2
   \<and> unat (halfsecs (init\<lparr>cycles := 31, halfsecs := 172799\<rparr>)) div 7200 = 23
   \<and> halfsecs (isr False \<lparr>PORTE_IN = 0xFB, ADC0_RES = 0, TEMPSENSE0 = 0, TEMPSENSE1 = 0\<rparr>
        (init\<lparr>cycles := 31, halfsecs := 172799\<rparr>)) = 120
   \<and> unat (halfsecs (isr False \<lparr>PORTE_IN = 0xFB, ADC0_RES = 0, TEMPSENSE0 = 0, TEMPSENSE1 = 0\<rparr>
        (init\<lparr>cycles := 31, halfsecs := 172799\<rparr>))) div 7200 = 0"
  by (simp add: halfsecs_isr init_def adjust_def advance_def mins_adjust_def
      MinsButton_def HoursButton_def PIN2_bm_def PIN3_bm_def)

text \<open>
  Claim C4, as amended. On a half-second boundary with the minutes button asserted,
  whatever the time of day before the tick: the new \<open>halfsecs\<close> is a whole minute; its minute
  is one more (modulo 60) than the minute of the value the adjustment reads, which is the
  time of day after the normal advance of line 179, \<open>(halfsecs + 1) mod 172800\<close>; and its
  hour is not less than the hour of that value. With the hours button released the hour
  is the same, so the minute wraps from 59 to 0 without a carry. Whenever the time before
  the tick is in range and is not the last half-second of a minute, the advance changes
  neither minute nor hour, and the same holds relative to the time before the tick.
\<close>

theorem mins_button_snap:
  assumes "\<not> cycles s + 1 < 32" and "MinsButton inp"
  shows "unat (halfsecs (isr tw inp s)) mod 120 = 0
         \<and> (unat (halfsecs (isr tw inp s)) div 120) mod 60
             = ((unat ((halfsecs s + 1) mod 172800) div 120) mod 60 + 1) mod 60
         \<and> unat ((halfsecs s + 1) mod 172800) div 7200 \<le> unat (halfsecs (isr tw inp s)) div 7200
         \<and> (\<not> HoursButton inp \<longrightarrow>
              unat (halfsecs (isr tw inp s)) div 7200 = unat ((halfsecs s + 1) mod 172800) div 7200
              \<and> halfsecs (isr tw inp s) < 172800)
         \<and> (halfsecs s < 172800 \<and> unat (halfsecs s) mod 120 \<noteq> 119 \<longrightarrow>
              (unat (halfsecs (isr tw inp s)) div 120) mod 60
                = ((unat (halfsecs s) div 120) mod 60 + 1) mod 60
              \<and> unat (halfsecs s) div 7200 \<le> unat (halfsecs (isr tw inp s)) div 7200)"
proof -
  let ?h = "advance (halfsecs s)"
  let ?m = "mins_adjust ?h"
  let ?r = "halfsecs (isr tw inp s)"
  have hl: "unat ?h < 172800" by (rule unat_advance_less)
  have ml: "unat ?m < 172800" by (rule mins_adjust_less [OF hl])
  note um = unat_mins_adjust [OF hl]
  have c: "unat ?m mod 120 = 0" "(unat ?m div 120) mod 60 = (unat ?h div 120 + 1) mod 60"
    "unat ?m div 7200 = unat ?h div 7200"
    unfolding um by (rule mins_adjust_components)+
  have r: "unat ?r = (if HoursButton inp then unat ?m + 7200 else unat ?m)"
    using assms by (simp add: halfsecs_isr adjust_def unat_hours_adjust [OF ml])
  have 1: "unat ?r mod 120 = 0"
    using c(1) unfolding r by (simp add: add_hour_components)
  have "(unat ?r div 120) mod 60 = (unat ?h div 120 + 1) mod 60"
    using c(2) unfolding r by (simp add: add_hour_components)
  then have 2: "(unat ?r div 120) mod 60 = ((unat ?h div 120) mod 60 + 1) mod 60"
    by (simp add: mod_Suc_eq)
  have 3: "unat ?h div 7200 \<le> unat ?r div 7200"
    using c(3) unfolding r by (simp add: add_hour_components)
  have 4: "\<not> HoursButton inp \<longrightarrow> unat ?r div 7200 = unat ?h div 7200 \<and> ?r < 172800"
    using c(3) ml unfolding r word_less_nat_alt by (simp add: r)
  have 5: "(unat ?r div 120) mod 60 = ((unat (halfsecs s) div 120) mod 60 + 1) mod 60
           \<and> unat (halfsecs s) div 7200 \<le> unat ?r div 7200"
    if "halfsecs s < 172800 \<and> unat (halfsecs s) mod 120 \<noteq> 119"
  proof -
    from that have l: "unat (halfsecs s) < 172800" and n: "unat (halfsecs s) mod 120 \<noteq> 119"
      by (simp_all add: word_less_nat_alt)
    have a: "unat ?h = Suc (unat (halfsecs s))" by (rule unat_advance_plain [OF l n])
    show ?thesis using 2 3 unfolding a succ_same_minute [OF n] by simp
  qed
  show ?thesis using 1 2 3 4 5 by (simp add: advance_def)
qed

theorem mins_button_snap_witness:
  "\<not> cycles (init\<lparr>cycles := 31, halfsecs := 7000\<rparr>) + 1 < 32
   \<and> MinsButton \<lparr>PORTE_IN = 0xFB, ADC0_RES = 0, TEMPSENSE0 = 0, TEMPSENSE1 = 0\<rparr>
   \<and> \<not> HoursButton \<lparr>PORTE_IN = 0xFB, ADC0_RES = 0, TEMPSENSE0 = 0, TEMPSENSE1 = 0\<rparr>
   \<and> halfsecs (init\<lparr>cycles := 31, halfsecs := 7000\<rparr>) < 172800
   \<and> unat (halfsecs (init\<lparr>cycles := 31, halfsecs := 7000\<rparr>)) mod 120 \<noteq> 119
   \<and> unat (halfsecs (isr False \<lparr>PORTE_IN = 0xFB, ADC0_RES = 0, TEMPSENSE0 = 0, TEMPSENSE1 = 0\<rparr>
         (init\<lparr>cycles := 31, halfsecs := 7000\<rparr>))) mod 120 = 0
   \<and> (unat (halfsecs (isr False \<lparr>PORTE_IN = 0xFB, ADC0_RES = 0, TEMPSENSE0 = 0, TEMPSENSE1 = 0\<rparr>
         (init\<lparr>cycles := 31, halfsecs := 7000\<rparr>))) div 120) mod 60 = 59
   \<and> halfsecs (isr False \<lparr>PORTE_IN = 0xFB, ADC0_RES = 0, TEMPSENSE0 = 0, TEMPSENSE1 = 0\<rparr>
         (init\<lparr>cycles := 31, halfsecs := 7000\<rparr>)) < 172800"
  using mins_button_snap
    [of "init\<lparr>cycles := 31, halfsecs := 7000\<rparr>"
        "\<lparr>PORTE_IN = 0xFB, ADC0_RES = 0, TEMPSENSE0 = 0, TEMPSENSE1 = 0\<rparr>" False]
  by (simp add: init_def MinsButton_def HoursButton_def PIN2_bm_def PIN3_bm_def)

lemma halfsecs_isr_bounds:
  shows "halfsecs s < 180000 \<Longrightarrow> halfsecs (isr tw inp s) < 180000"
    and "halfsecs s < 172800 \<Longrightarrow> \<not> HoursButton inp \<Longrightarrow> halfsecs (isr tw inp s) < 172800"
    and "\<not> cycles s + 1 < 32 \<Longrightarrow> halfsecs (isr tw inp s) < 180000"
    and "\<not> cycles s + 1 < 32 \<Longrightarrow> \<not> HoursButton inp \<Longrightarrow> halfsecs (isr tw inp s) < 172800"
  using unat_adjust_less [OF unat_advance_less, of inp "halfsecs s"]
  by (simp_all add: halfsecs_isr word_less_nat_alt)

lemma run_halfsecs_bound:
  "halfsecs s < 180000 \<Longrightarrow> halfsecs (run tw inps s) < 180000"
  by (induction inps arbitrary: s) (simp_all add: halfsecs_isr_bounds)

lemma run_halfsecs_range:
  "halfsecs s < 172800 \<Longrightarrow> \<forall>i \<in> set inps. \<not> HoursButton i
     \<Longrightarrow> halfsecs (run tw inps s) < 172800"
  by (induction inps arbitrary: s) (simp_all add: halfsecs_isr_bounds)

text \<open>
  Claim C3, as amended. The normal advance and the minutes adjustment leave \<open>halfsecs\<close>
  below 172800, so it is in range at the end of every boundary invocation on which the
  hours button is released, and on every run on which the hours button is never
  asserted. The hours adjustment adds 7200 and does not reduce the sum, so after it
  \<open>halfsecs\<close> may be anywhere below 180000; it stays below 180000 on every run from
  power-on.
\<close>

theorem halfsecs_range:
  "(\<not> cycles s + 1 < 32 \<and> \<not> HoursButton inp \<longrightarrow> halfsecs (isr tw inp s) < 172800)
   \<and> (\<not> cycles s + 1 < 32 \<and> HoursButton inp \<longrightarrow>
        7200 \<le> halfsecs (isr tw inp s) \<and> halfsecs (isr tw inp s) < 180000)
   \<and> (halfsecs s < 172800 \<and> (\<forall>i \<in> set inps. \<not> HoursButton i) \<longrightarrow>
        halfsecs (run tw inps s) < 172800)
   \<and> halfsecs (run tw inps init) < 180000"
proof -
  have lower: "7200 \<le> halfsecs (isr tw inp s)" if b: "\<not> cycles s + 1 < 32" and h: "HoursButton inp"
  proof -
    let ?m = "if MinsButton inp then mins_adjust (advance (halfsecs s)) else advance (halfsecs s)"
    have ml: "unat ?m < 172800" using unat_advance_less mins_adjust_less by simp
    have "halfsecs (isr tw inp s) = hours_adjust ?m"
      using b h by (simp add: halfsecs_isr adjust_def)
    then have "unat (halfsecs (isr tw inp s)) = unat ?m + 7200"
      using unat_hours_adjust [OF ml] by simp
    then show ?thesis by (simp add: word_le_nat_alt)
  qed
  have "halfsecs init < 180000" by (simp add: init_def)
  then have "halfsecs (run tw inps init) < 180000" by (rule run_halfsecs_bound)
  then show ?thesis
    using lower halfsecs_isr_bounds(3,4) [where s = s and tw = tw and inp = inp]
      run_halfsecs_range [where s = s and inps = inps and tw = tw]
    by blast
qed

theorem halfsecs_range_witness:
  "\<not> cycles (init\<lparr>cycles := 31, halfsecs := 172000\<rparr>) + 1 < 32
   \<and> HoursButton \<lparr>PORTE_IN = 0xF7, ADC0_RES = 0, TEMPSENSE0 = 0, TEMPSENSE1 = 0\<rparr>
   \<and> 7200 \<le> halfsecs (isr False \<lparr>PORTE_IN = 0xF7, ADC0_RES = 0, TEMPSENSE0 = 0, TEMPSENSE1 = 0\<rparr>
         (init\<lparr>cycles := 31, halfsecs := 172000\<rparr>))
   \<and> halfsecs (isr False \<lparr>PORTE_IN = 0xF7, ADC0_RES = 0, TEMPSENSE0 = 0, TEMPSENSE1 = 0\<rparr>
         (init\<lparr>cycles := 31, halfsecs := 172000\<rparr>)) < 180000
   \<and> \<not> cycles (init\<lparr>cycles := 31, halfsecs := 172799\<rparr>) + 1 < 32
   \<and> \<not> HoursButton \<lparr>PORTE_IN = 0xFF, ADC0_RES = 0, TEMPSENSE0 = 0, TEMPSENSE1 = 0\<rparr>
   \<and> halfsecs (isr False \<lparr>PORTE_IN = 0xFF, ADC0_RES = 0, TEMPSENSE0 = 0, TEMPSENSE1 = 0\<rparr>
         (init\<lparr>cycles := 31, halfsecs := 172799\<rparr>)) < 172800
   \<and> halfsecs (run False [\<lparr>PORTE_IN = 0xFF, ADC0_RES = 0, TEMPSENSE0 = 0, TEMPSENSE1 = 0\<rparr>]
         (init\<lparr>cycles := 31, halfsecs := 172799\<rparr>)) < 172800"
  using halfsecs_range
    [of "init\<lparr>cycles := 31, halfsecs := 172000\<rparr>"
        "\<lparr>PORTE_IN = 0xF7, ADC0_RES = 0, TEMPSENSE0 = 0, TEMPSENSE1 = 0\<rparr>" False "[]"]
    halfsecs_range
    [of "init\<lparr>cycles := 31, halfsecs := 172799\<rparr>"
        "\<lparr>PORTE_IN = 0xFF, ADC0_RES = 0, TEMPSENSE0 = 0, TEMPSENSE1 = 0\<rparr>" False
        "[\<lparr>PORTE_IN = 0xFF, ADC0_RES = 0, TEMPSENSE0 = 0, TEMPSENSE1 = 0\<rparr>]"]
  by (simp add: init_def HoursButton_def PIN3_bm_def)

text \<open>
  Claim C3 as stated fails: at 23:53:20 with the hours button held, the boundary tick
  leaves \<open>halfsecs = 172001 + 7200 = 179201\<close>, which is not below 172800.
\<close>

theorem halfsecs_out_of_range:
  "halfsecs (init\<lparr>cycles := 31, halfsecs := 172000\<rparr>) < 172800
   \<and> halfsecs (isr False \<lparr>PORTE_IN = 0xF7, ADC0_RES = 0, TEMPSENSE0 = 0, TEMPSENSE1 = 0\<rparr>
        (init\<lparr>cycles := 31, halfsecs := 172000\<rparr>)) = 179201
   \<and> \<not> halfsecs (isr False \<lparr>PORTE_IN = 0xF7, ADC0_RES = 0, TEMPSENSE0 = 0, TEMPSENSE1 = 0\<rparr>
        (init\<lparr>cycles := 31, halfsecs := 172000\<rparr>)) < 172800"
  by (simp add: halfsecs_isr init_def adjust_def advance_def hours_adjust_def
      MinsButton_def HoursButton_def PIN2_bm_def PIN3_bm_def)

text \<open>
  Claim C5, as amended. The hours adjustment is a separate \<^verbatim>\<open>if\<close>, evaluated whether or
  not the minutes button is asserted, after the minutes adjustment. When the hours button
  is asserted on a boundary it adds exactly 7200 to the value it reads (the time after the
  normal advance and after the minutes adjustment, if any), with no wrap-around: the hour
  is one more, the half-seconds within the hour, and so the minute and the half-seconds
  within the minute, are unchanged.
\<close>

theorem hours_button_adds_hour:
  assumes "\<not> cycles s + 1 < 32" and "HoursButton inp"
  shows "halfsecs (isr tw inp s) =
           (if MinsButton inp then mins_adjust ((halfsecs s + 1) mod 172800)
            else (halfsecs s + 1) mod 172800) + 7200
         \<and> unat (halfsecs (isr tw inp s)) =
             unat (if MinsButton inp then mins_adjust ((halfsecs s + 1) mod 172800)
                   else (halfsecs s + 1) mod 172800) + 7200
         \<and> unat (halfsecs (isr tw inp s)) mod 7200 =
             unat (if MinsButton inp then mins_adjust ((halfsecs s + 1) mod 172800)
                   else (halfsecs s + 1) mod 172800) mod 7200
         \<and> (unat (halfsecs (isr tw inp s)) div 120) mod 60 =
             (unat (if MinsButton inp then mins_adjust ((halfsecs s + 1) mod 172800)
                    else (halfsecs s + 1) mod 172800) div 120) mod 60
         \<and> unat (halfsecs (isr tw inp s)) mod 120 =
             unat (if MinsButton inp then mins_adjust ((halfsecs s + 1) mod 172800)
                   else (halfsecs s + 1) mod 172800) mod 120"
proof -
  let ?m = "if MinsButton inp then mins_adjust (advance (halfsecs s)) else advance (halfsecs s)"
  have ml: "unat ?m < 172800" using unat_advance_less mins_adjust_less by simp
  have r: "halfsecs (isr tw inp s) = ?m + 7200"
    using assms by (simp add: halfsecs_isr adjust_def hours_adjust_def)
  have u: "unat (halfsecs (isr tw inp s)) = unat ?m + 7200"
    using unat_hours_adjust [OF ml] unfolding r hours_adjust_def .
  show ?thesis
    unfolding u add_hour_components using r by (simp add: advance_def)
qed

theorem hours_button_adds_hour_witness:
  "\<not> cycles (init\<lparr>cycles := 31, halfsecs := 172000\<rparr>) + 1 < 32
   \<and> HoursButton \<lparr>PORTE_IN = 0xF7, ADC0_RES = 0, TEMPSENSE0 = 0, TEMPSENSE1 = 0\<rparr>
   \<and> unat (halfsecs (isr False \<lparr>PORTE_IN = 0xF7, ADC0_RES = 0, TEMPSENSE0 = 0, TEMPSENSE1 = 0\<rparr>
         (init\<lparr>cycles := 31, halfsecs := 172000\<rparr>))) = 172001 + 7200"
  using hours_button_adds_hour
    [of "init\<lparr>cycles := 31, halfsecs := 172000\<rparr>"
        "\<lparr>PORTE_IN = 0xF7, ADC0_RES = 0, TEMPSENSE0 = 0, TEMPSENSE1 = 0\<rparr>" False]
  by (simp add: init_def MinsButton_def HoursButton_def PIN2_bm_def PIN3_bm_def)

text \<open>
  Claim C5 as stated fails: with both buttons held the hours adjustment fires although
  the minutes button is asserted. From 00:00:00 the boundary tick gives
  \<open>halfsecs = 120 + 7200\<close>, where an \<^verbatim>\<open>else if\<close> would leave the 120 of the minutes
  adjustment.
\<close>

theorem hours_adjust_not_else_if:
  "MinsButton \<lparr>PORTE_IN = 0xF3, ADC0_RES = 0, TEMPSENSE0 = 0, TEMPSENSE1 = 0\<rparr>
   \<and> HoursButton \<lparr>PORTE_IN = 0xF3, ADC0_RES = 0, TEMPSENSE0 = 0, TEMPSENSE1 = 0\<rparr>
   \<and> mins_adjust (advance (halfsecs (init\<lparr>cycles := 31\<rparr>))) = 120
   \<and> halfsecs (isr False \<lparr>PORTE_IN = 0xF3, ADC0_RES = 0, TEMPSENSE0 = 0, TEMPSENSE1 = 0\<rparr>
        (init\<lparr>cycles := 31\<rparr>)) = 7320"
  by (simp add: halfsecs_isr init_def adjust_def advance_def hours_adjust_def mins_adjust_def
      MinsButton_def HoursButton_def PIN2_bm_def PIN3_bm_def)


subsection \<open>The time renderer\<close>

lemma unat_ucast_small:
  fixes w :: "'a::len word"
  assumes "unat w < 2 ^ LENGTH('b::len)"
  shows "unat (ucast w :: 'b word) = unat w"
  using assms by (simp add: unsigned_ucast_eq take_bit_nat_eq_self)

lemma time_hours_twelvehour_range: "1 \<le> time_hours True hs \<and> time_hours True hs \<le> 12"
proof -
  have l: "unat ((hs div 7200) mod 12) < 12" by (simp add: unat_mod)
  then have s: "unat ((hs div 7200) mod 12 + 1) = unat ((hs div 7200) mod 12) + 1"
    by (simp add: unat_word_ariths)
  have "unat (ucast ((hs div 7200) mod 12 + 1) :: 8 word) = unat ((hs div 7200) mod 12 + 1)"
    by (rule unat_ucast_small) (use l s in simp)
  then have u: "unat (time_hours True hs) = unat ((hs div 7200) mod 12) + 1"
    using s by (simp add: time_hours_def)
  show ?thesis unfolding word_le_nat_alt u using l by simp
qed

text \<open>
  Claim C7. In 24-hour mode the renderer shows 00:00 for \<open>halfsecs = 0\<close> and 13:05 for
  \<open>halfsecs = 94200\<close>. In 12-hour mode the hour is \<open>(halfsecs / 7200) % 12 + 1\<close>: for 13:05
  the hour digits are "02", not "01", and hour 0 is shown as 1, not as 12.
\<close>

theorem DisplayTime_twelvehour_hour:
  "map (OUT (DisplayTime False 0 init)) Digit = [Char_at 0, Char_at 0, Char_at 0, Char_at 0]
   \<and> map (OUT (DisplayTime False 94200 init)) Digit = [Char_at 1, Char_at 3, Char_at 0, Char_at 5]
   \<and> time_hours True 94200 = 2
   \<and> map (OUT (DisplayTime True 94200 init)) Digit = [Char_at 0, Char_at 2, Char_at 0, Char_at 5]
   \<and> time_hours True 0 = 1
   \<and> map (OUT (DisplayTime True 0 init)) Digit = [Char_at 0, Char_at 1, Char_at 0, Char_at 0]"
  by (simp add: DisplayTime_def time_hours_def time_minutes_def Let_def out_set_def Digit_def
      init_def Char_at_def Char_def CharLen_def)


subsection \<open>What one invocation stores\<close>


lemma toggle_segments_OUT:
  "OUT (toggle_segments s) p = map_option (\<lambda>v. v XOR PortSetup p) (OUT s p)"
  by (cases p) (simp_all add: toggle_segments_def out_tgl_def Digit_def PortSetup_def)




lemma DisplayTime_OUT:
  "OUT (DisplayTime tw h s) =
     (OUT s)(PORTD := Char_at (uint (time_hours tw h) div 10),
             PORTC := Char_at (uint (time_hours tw h) mod 10),
             PORTA := Char_at (uint (time_minutes h) div 10),
             PORTB := Char_at (uint (time_minutes h) mod 10),
             PORTF := map_option (\<lambda>u. (drop_bit 1 u AND PIN5_bm) OR ucast (push_bit 4 (h AND 1)))
                        (Char_at (uint (time_minutes h) mod 10)))"
  by (simp add: DisplayTime_def Let_def out_set_def Digit_def)

lemma DisplayVoltage_OUT:
  "OUT (DisplayVoltage inp s) =
     (OUT s)(PORTD := Char_at Space,
             PORTC := map_option (\<lambda>c. c OR 0x80)
                        (Char_at (uint (voltage_of (ADC0_RES inp) div 10))),
             PORTA := Char_at (uint (voltage_of (ADC0_RES inp) mod 10)),
             PORTB := Char_at Vee,
             PORTF := map_option (\<lambda>u. drop_bit 1 u AND PIN5_bm) (Char_at Vee))"
  by (simp add: DisplayVoltage_def Let_def out_set_def Digit_def)

lemma DisplayTemp_OUT:
  "OUT (DisplayTemp inp s) =
     (OUT s)(PORTD := (if temp_kelvin (TEMPSENSE1 inp) (TEMPSENSE0 inp) (ADC0_RES inp) < 273
                       then Char_at Minus
                       else Char_at (temp_tens_index (temp_celsius
                              (temp_kelvin (TEMPSENSE1 inp) (TEMPSENSE0 inp) (ADC0_RES inp))))),
             PORTC := Char_at (temp_units_index (temp_celsius
                        (temp_kelvin (TEMPSENSE1 inp) (TEMPSENSE0 inp) (ADC0_RES inp)))),
             PORTA := Char_at Degree,
             PORTB := Char_at Celsius,
             PORTF := map_option (\<lambda>u. drop_bit 1 u AND PIN5_bm) (Char_at Celsius))"
  by (simp add: DisplayTemp_def Let_def out_set_def Digit_def)



lemma unat_ticks_of: "unat (ticks_of h) = unat h mod 120"
proof -
  have "unat (h mod 120) = unat h mod 120" by (simp add: unat_mod)
  moreover have "unat h mod 120 < 2 ^ LENGTH(8)" by (rule less_trans [of _ 120]) simp_all
  ultimately show ?thesis unfolding ticks_of_def by (simp add: unat_ucast_small)
qed

lemma ticks_of_tests:
  "(ticks_of h < 108) = (unat h mod 120 < 108)"
  "(ticks_of h = 108) = (unat h mod 120 = 108)"
  "(ticks_of h = 114) = (unat h mod 120 = 114)"
  by (simp_all add: word_less_nat_alt word_unat_eq_iff unat_ticks_of)










subsection \<open>Which renderer runs\<close>

lemma isr_boundary:
  assumes "\<not> cycles s + 1 < 32"
  shows "isr tw inp s =
    (let h = advance (halfsecs s);
         s2 = (toggle_segments s)\<lparr>cycles := 0, halfsecs := adjust inp h\<rparr>
     in if MinsButton inp \<or> HoursButton inp \<or> unat h mod 120 < 108
        then DisplayTime tw (adjust inp h) s2
        else if unat h mod 120 = 108 then DisplayVoltage inp s2
        else if unat h mod 120 = 114 then DisplayTemp inp s2
        else s2)"
  using assms by (simp add: isr_def Let_def toggle_segments_fields ticks_of_tests)

lemma renderer_OUT_independent:
  assumes "p \<noteq> PORTE"
  shows "OUT (DisplayTime tw h s) p = OUT (DisplayTime tw h s') p"
    and "OUT (DisplayVoltage inp s) p = OUT (DisplayVoltage inp s') p"
    and "OUT (DisplayTemp inp s) p = OUT (DisplayTemp inp s') p"
  using assms
  by (cases p; simp add: DisplayTime_OUT DisplayVoltage_OUT DisplayTemp_OUT)+

text \<open>
  Claim C1. On a half-second boundary the phase index is the time of day after the
  normal advance, modulo 120 (the 8-bit \<^verbatim>\<open>ticks\<close> holds it without loss), and the
  renderer is chosen by the first test that holds: a button asserted, then phase index
  below 108 (both the Time renderer, on the adjusted time), then phase index 108 (Voltage),
  then phase index 114 (Temperature); otherwise nothing is stored after the inversion
  of the lines, and every register holds its previous content, inverted on the driven
  lines. What a renderer stores in the digit ports and in PORTF depends on the time of day
  and on what the invocation reads only: two boundary invocations with the same time and
  the same inputs leave the same patterns there, whatever was displayed before.
\<close>

theorem renderer_selection:
  assumes "\<not> cycles s + 1 < 32"
  shows "unat (ticks_of ((halfsecs s + 1) mod 172800)) = unat ((halfsecs s + 1) mod 172800) mod 120
    \<and> isr tw inp s =
        (let phase = unat ((halfsecs s + 1) mod 172800) mod 120;
             h' = adjust inp ((halfsecs s + 1) mod 172800);
             s2 = (toggle_segments s)\<lparr>cycles := 0, halfsecs := h'\<rparr>
         in if MinsButton inp \<or> HoursButton inp then DisplayTime tw h' s2
            else if phase < 108 then DisplayTime tw h' s2
            else if phase = 108 then DisplayVoltage inp s2
            else if phase = 114 then DisplayTemp inp s2
            else s2)
    \<and> (\<not> MinsButton inp \<and> \<not> HoursButton inp
         \<and> 108 < unat ((halfsecs s + 1) mod 172800) mod 120
         \<and> unat ((halfsecs s + 1) mod 172800) mod 120 \<noteq> 114 \<longrightarrow>
           trace (isr tw inp s) = trace (toggle_segments s)
           \<and> (\<forall>p. OUT (isr tw inp s) p = map_option (\<lambda>v. v XOR PortSetup p) (OUT s p)))
    \<and> (\<not> cycles s' + 1 < 32 \<and> halfsecs s' = halfsecs s
         \<and> (MinsButton inp \<or> HoursButton inp
              \<or> unat ((halfsecs s + 1) mod 172800) mod 120 \<le> 108
              \<or> unat ((halfsecs s + 1) mod 172800) mod 120 = 114) \<longrightarrow>
           (\<forall>p. p \<noteq> PORTE \<longrightarrow> OUT (isr tw inp s') p = OUT (isr tw inp s) p))"
proof -
  let ?h = "(halfsecs s + 1) mod 172800"
  let ?ph = "unat ?h mod 120"
  note b = isr_boundary [OF assms, of tw inp, unfolded advance_def]
  have 1: "unat (ticks_of ?h) = ?ph" by (rule unat_ticks_of)
  have 2: "isr tw inp s =
        (let phase = ?ph; h' = adjust inp ?h;
             s2 = (toggle_segments s)\<lparr>cycles := 0, halfsecs := h'\<rparr>
         in if MinsButton inp \<or> HoursButton inp then DisplayTime tw h' s2
            else if phase < 108 then DisplayTime tw h' s2
            else if phase = 108 then DisplayVoltage inp s2
            else if phase = 114 then DisplayTemp inp s2
            else s2)"
    unfolding b by (simp add: Let_def)
  have 3: "trace (isr tw inp s) = trace (toggle_segments s)
           \<and> (\<forall>p. OUT (isr tw inp s) p = map_option (\<lambda>v. v XOR PortSetup p) (OUT s p))"
    if "\<not> MinsButton inp \<and> \<not> HoursButton inp \<and> 108 < ?ph \<and> ?ph \<noteq> 114"
    using that unfolding b by (simp add: Let_def toggle_segments_OUT)
  have 4: "\<forall>p. p \<noteq> PORTE \<longrightarrow> OUT (isr tw inp s') p = OUT (isr tw inp s) p"
    if "\<not> cycles s' + 1 < 32 \<and> halfsecs s' = halfsecs s
        \<and> (MinsButton inp \<or> HoursButton inp \<or> ?ph \<le> 108 \<or> ?ph = 114)"
  proof (intro allI impI)
    fix p :: port
    assume p: "p \<noteq> PORTE"
    note b' = isr_boundary [of s' tw inp, unfolded advance_def]
    from that have c: "\<not> cycles s' + 1 < 32" and e: "halfsecs s' = halfsecs s"
      and r: "MinsButton inp \<or> HoursButton inp \<or> ?ph \<le> 108 \<or> ?ph = 114" by simp_all
    show "OUT (isr tw inp s') p = OUT (isr tw inp s) p"
      unfolding b b' [OF c] e Let_def
      using r renderer_OUT_independent [OF p] by auto
  qed
  show ?thesis using 1 2 3 4 by blast
qed

theorem renderer_selection_witness:
  "\<not> cycles (init\<lparr>cycles := 31, halfsecs := 107\<rparr>) + 1 < 32
   \<and> \<not> MinsButton \<lparr>PORTE_IN = 0xFF, ADC0_RES = 1650, TEMPSENSE0 = 0, TEMPSENSE1 = 0\<rparr>
   \<and> \<not> HoursButton \<lparr>PORTE_IN = 0xFF, ADC0_RES = 1650, TEMPSENSE0 = 0, TEMPSENSE1 = 0\<rparr>
   \<and> unat ((halfsecs (init\<lparr>cycles := 31, halfsecs := 107\<rparr>) + 1) mod 172800) mod 120 = 108
   \<and> isr False \<lparr>PORTE_IN = 0xFF, ADC0_RES = 1650, TEMPSENSE0 = 0, TEMPSENSE1 = 0\<rparr>
        (init\<lparr>cycles := 31, halfsecs := 107\<rparr>)
      = DisplayVoltage \<lparr>PORTE_IN = 0xFF, ADC0_RES = 1650, TEMPSENSE0 = 0, TEMPSENSE1 = 0\<rparr>
          ((toggle_segments (init\<lparr>cycles := 31, halfsecs := 107\<rparr>))\<lparr>cycles := 0, halfsecs := 108\<rparr>)
   \<and> OUT (isr False \<lparr>PORTE_IN = 0xFF, ADC0_RES = 1650, TEMPSENSE0 = 0, TEMPSENSE1 = 0\<rparr>
        (init\<lparr>cycles := 31, halfsecs := 107, OUT := (\<lambda>p. None)\<rparr>)) PORTC
      = OUT (isr False \<lparr>PORTE_IN = 0xFF, ADC0_RES = 1650, TEMPSENSE0 = 0, TEMPSENSE1 = 0\<rparr>
        (init\<lparr>cycles := 31, halfsecs := 107\<rparr>)) PORTC
   \<and> \<not> cycles (init\<lparr>cycles := 31, halfsecs := 108\<rparr>) + 1 < 32
   \<and> unat ((halfsecs (init\<lparr>cycles := 31, halfsecs := 108\<rparr>) + 1) mod 172800) mod 120 = 109
   \<and> OUT (isr False \<lparr>PORTE_IN = 0xFF, ADC0_RES = 1650, TEMPSENSE0 = 0, TEMPSENSE1 = 0\<rparr>
        (init\<lparr>cycles := 31, halfsecs := 108\<rparr>)) PORTC = Some 0xFF"
  using renderer_selection
    [of "init\<lparr>cycles := 31, halfsecs := 107\<rparr>" False
        "\<lparr>PORTE_IN = 0xFF, ADC0_RES = 1650, TEMPSENSE0 = 0, TEMPSENSE1 = 0\<rparr>"
        "init\<lparr>cycles := 31, halfsecs := 107, OUT := (\<lambda>p. None)\<rparr>"]
    renderer_selection
    [of "init\<lparr>cycles := 31, halfsecs := 108\<rparr>" False
        "\<lparr>PORTE_IN = 0xFF, ADC0_RES = 1650, TEMPSENSE0 = 0, TEMPSENSE1 = 0\<rparr>"
        "init\<lparr>cycles := 31, halfsecs := 108\<rparr>"]
  by (simp add: init_def MinsButton_def HoursButton_def PIN2_bm_def PIN3_bm_def adjust_def
      PortSetup_def toggle_segments_OUT)


subsection \<open>The voltage renderer\<close>

lemma uint_voltage_digits:
  "uint (v div 10) = uint v div 10" "uint (v mod 10) = uint v mod 10" for v :: uint16_t
  by (simp_all add: uint_div uint_mod)

text \<open>
  Claim C9 as stated fails: for the scaled value 123 (conversion result 6150) slot 1
  holds \<^verbatim>\<open>Char[12] | 0x80\<close>, the degree glyph with the decimal point, not the digit 2 of a
  value truncated to 23.
\<close>

theorem voltage_overflow_not_truncated:
  "voltage_of 6150 = 123
   \<and> OUT (DisplayVoltage \<lparr>PORTE_IN = 0xFF, ADC0_RES = 6150, TEMPSENSE0 = 0, TEMPSENSE1 = 0\<rparr> init)
        (Digit ! 1) = Some (Char ! 12 OR 0x80)
   \<and> OUT (DisplayVoltage \<lparr>PORTE_IN = 0xFF, ADC0_RES = 6150, TEMPSENSE0 = 0, TEMPSENSE1 = 0\<rparr> init)
        (Digit ! 1) \<noteq> Some (Char ! nat ((123 mod 100) div 10) OR 0x80)"
  by (simp add: DisplayVoltage_OUT voltage_of_def Digit_def Char_at_def Char_def CharLen_def)

text \<open>
  Claim C9, as amended. For a scaled value \<open>v \<ge> 100\<close> nothing is truncated to two
  digits: slot 2 holds the digit glyph of \<open>v mod 10\<close>; slot 1 is read at index \<open>v / 10\<close>,
  which for \<open>v < 150\<close> is one of the entries 10 to 14 of the table (space, minus, degree, C,
  V), stored with the decimal-point bit set, and for \<open>v \<ge> 150\<close> lies outside the table.
\<close>

theorem voltage_overflow:
  assumes "100 \<le> voltage_of (ADC0_RES inp)"
  shows "OUT (DisplayVoltage inp s) (Digit ! 2)
           = Some (Char ! nat (uint (voltage_of (ADC0_RES inp)) mod 10))
    \<and> uint (voltage_of (ADC0_RES inp)) mod 10 < 10
    \<and> (voltage_of (ADC0_RES inp) < 150 \<longrightarrow>
          OUT (DisplayVoltage inp s) (Digit ! 1)
            = Some (Char ! nat (uint (voltage_of (ADC0_RES inp)) div 10) OR 0x80)
          \<and> 10 \<le> uint (voltage_of (ADC0_RES inp)) div 10
          \<and> uint (voltage_of (ADC0_RES inp)) div 10 \<le> 14)
    \<and> (150 \<le> voltage_of (ADC0_RES inp) \<longrightarrow>
          CharLen \<le> uint (voltage_of (ADC0_RES inp)) div 10
          \<and> OUT (DisplayVoltage inp s) (Digit ! 1) = None)"
proof -
  let ?v = "voltage_of (ADC0_RES inp)"
  have lo: "100 \<le> uint ?v" using assms by (simp add: word_le_def)
  have u: "0 \<le> uint ?v mod 10" "uint ?v mod 10 < 10" by simp_all
  have 1: "OUT (DisplayVoltage inp s) (Digit ! 2) = Some (Char ! nat (uint ?v mod 10))"
    using u by (simp add: DisplayVoltage_OUT Digit_def Char_at_def CharLen_def
        uint_voltage_digits)
  have 2: "OUT (DisplayVoltage inp s) (Digit ! 1) = Some (Char ! nat (uint ?v div 10) OR 0x80)
           \<and> 10 \<le> uint ?v div 10 \<and> uint ?v div 10 \<le> 14" if "?v < 150"
  proof -
    have "uint ?v < 150" using that by (simp add: word_less_def)
    then have "10 \<le> uint ?v div 10" "uint ?v div 10 \<le> 14" using lo by simp_all
    then show ?thesis
      by (simp add: DisplayVoltage_OUT Digit_def Char_at_def CharLen_def uint_voltage_digits)
  qed
  have 3: "CharLen \<le> uint ?v div 10 \<and> OUT (DisplayVoltage inp s) (Digit ! 1) = None"
    if "150 \<le> ?v"
  proof -
    have "150 \<le> uint ?v" using that by (simp add: word_le_def)
    then have "15 \<le> uint ?v div 10" by simp
    then show ?thesis
      by (simp add: DisplayVoltage_OUT Digit_def Char_at_def CharLen_def uint_voltage_digits)
  qed
  show ?thesis using 1 u(2) 2 3 by blast
qed

theorem voltage_overflow_witness:
  "100 \<le> voltage_of (ADC0_RES \<lparr>PORTE_IN = 0xFF, ADC0_RES = 6150, TEMPSENSE0 = 0, TEMPSENSE1 = 0\<rparr>)
   \<and> voltage_of (ADC0_RES \<lparr>PORTE_IN = 0xFF, ADC0_RES = 6150, TEMPSENSE0 = 0, TEMPSENSE1 = 0\<rparr>) < 150
   \<and> OUT (DisplayVoltage \<lparr>PORTE_IN = 0xFF, ADC0_RES = 6150, TEMPSENSE0 = 0, TEMPSENSE1 = 0\<rparr> init)
        (Digit ! 1) = Some (Char ! 12 OR 0x80)
   \<and> OUT (DisplayVoltage \<lparr>PORTE_IN = 0xFF, ADC0_RES = 6150, TEMPSENSE0 = 0, TEMPSENSE1 = 0\<rparr> init)
        (Digit ! 2) = Some (Char ! 3)
   \<and> 150 \<le> voltage_of (ADC0_RES \<lparr>PORTE_IN = 0xFF, ADC0_RES = 7500, TEMPSENSE0 = 0, TEMPSENSE1 = 0\<rparr>)
   \<and> OUT (DisplayVoltage \<lparr>PORTE_IN = 0xFF, ADC0_RES = 7500, TEMPSENSE0 = 0, TEMPSENSE1 = 0\<rparr> init)
        (Digit ! 1) = None"
  using voltage_overflow
      [of "\<lparr>PORTE_IN = 0xFF, ADC0_RES = 6150, TEMPSENSE0 = 0, TEMPSENSE1 = 0\<rparr>" init]
    voltage_overflow
      [of "\<lparr>PORTE_IN = 0xFF, ADC0_RES = 7500, TEMPSENSE0 = 0, TEMPSENSE1 = 0\<rparr>" init]
  by (simp add: voltage_of_def)

subsection \<open>The temperature renderer\<close>

lemma temp_product_no_overflow:
  fixes d s :: uint16_t
  shows "unat ((ucast d :: uint32_t) * ucast s + 0x0800) = unat d * unat s + 2048"
proof -
  define X :: uint32_t where "X = ucast d * ucast s"
  have d: "unat d \<le> 65535" using unsigned_less [of d, where 'a = nat] by simp
  have s: "unat s \<le> 65535" using unsigned_less [of s, where 'a = nat] by simp
  have "unat d * unat s \<le> 65535 * 65535" using d s by (rule mult_le_mono)
  then have b: "unat d * unat s \<le> 4294836225" by simp
  have ud: "unat (ucast d :: uint32_t) = unat d" by (rule unat_ucast_small) (use d in simp)
  have us: "unat (ucast s :: uint32_t) = unat s" by (rule unat_ucast_small) (use s in simp)
  have "unat X = (unat d * unat s) mod 2 ^ 32"
    unfolding X_def by (simp add: unat_word_ariths ud us)
  also have "\<dots> = unat d * unat s" using b by (intro mod_less) simp
  finally have m: "unat X = unat d * unat s" .
  have "unat (X + 0x0800) = (unat X + 2048) mod 2 ^ 32"
    by (simp add: unat_word_ariths)
  also have "\<dots> = unat X + 2048" using b unfolding m by (intro mod_less) simp
  finally show ?thesis unfolding m unfolding X_def .
qed

lemma unat_temp_kelvin:
  "unat (temp_kelvin offset slope adc) = (unat (offset - adc) * unat slope + 2048) div 4096"
proof -
  define Y :: uint32_t where "Y = ucast (offset - adc) * ucast slope + 0x0800"
  have "unat (drop_bit 12 Y) = unat Y div 2 ^ 12"
    by (simp add: unat_drop_bit_eq drop_bit_eq_div unat_div)
  then show ?thesis
    unfolding temp_kelvin_def Y_def temp_product_no_overflow by simp
qed

lemma temp_celsius_eq:
  assumes "uint k \<le> 33040"
  shows "temp_celsius k = \<bar>uint k - 273\<bar>"
proof -
  have n: "0 \<le> uint k" by simp
  have "sint (k - 273) = sint (word_of_int (uint k - uint (273 :: uint32_t)) :: uint32_t)"
    by (simp only: word_sub_wi [symmetric])
  also have "\<dots> = signed_take_bit (LENGTH(32) - 1) (uint k - uint (273 :: uint32_t))"
    by (rule sint_sbintrunc')
  also have "\<dots> = uint k - uint (273 :: uint32_t)"
    by (rule signed_take_bit_int_eq_self) (use assms n in simp_all)
  also have "\<dots> = uint k - 273" by simp
  finally have a: "abs_spec (k - 273) = \<bar>uint k - 273\<bar>"
    by (simp add: abs_spec_def)
  have "\<bar>uint k - 273\<bar> \<le> 32767" using assms n by linarith
  then have "signed_take_bit 15 \<bar>uint k - 273\<bar> = \<bar>uint k - 273\<bar>"
    by (intro signed_take_bit_int_eq_self) simp_all
  then show ?thesis
    unfolding temp_celsius_def a by (simp add: sint_sbintrunc')
qed

lemma sdiv_smod_nonneg:
  "0 \<le> c \<Longrightarrow> c sdiv 10 = c div 10" "0 \<le> c \<Longrightarrow> c smod 10 = c mod 10" for c :: int
  by (simp_all add: signed_divide_int_def signed_modulo_int_def sgn_if)


lemma temp_indices:
  assumes "uint k \<le> 33040"
  shows "temp_units_index (temp_celsius k) = \<bar>uint k - 273\<bar> mod 10"
    and "temp_tens_index (temp_celsius k) = \<bar>uint k - 273\<bar> div 10"
  by (simp_all add: temp_units_index_def temp_tens_index_def temp_celsius_eq [OF assms]
      sdiv_smod_nonneg)

text \<open>
  Claim C10 as stated fails: with offset 1732, slope 1000 and sample 0 the conversion
  gives 423 K, so \<open>celsius = 150\<close> and slot 0 is read at index 15, one past the last entry
  of the 15-entry table.
\<close>

theorem temp_index_outside_table:
  "temp_kelvin 1732 1000 0 = 423
   \<and> \<not> temp_kelvin 1732 1000 0 < 273
   \<and> temp_celsius (temp_kelvin 1732 1000 0) = 150
   \<and> temp_tens_index (temp_celsius (temp_kelvin 1732 1000 0)) = 15
   \<and> \<not> temp_tens_index (temp_celsius (temp_kelvin 1732 1000 0)) < CharLen
   \<and> OUT (DisplayTemp \<lparr>PORTE_IN = 0xFF, ADC0_RES = 0, TEMPSENSE0 = 1000, TEMPSENSE1 = 1732\<rparr> init)
        (Digit ! 0) = None"
proof -
  have k: "temp_kelvin 1732 1000 0 = 423" by (simp add: temp_kelvin_def drop_bit_eq_div)
  have c: "temp_celsius 423 = 150" using temp_celsius_eq [of 423] by simp
  have t: "temp_tens_index 150 = 15" by (simp add: temp_tens_index_def sdiv_smod_nonneg)
  show ?thesis
    by (simp add: k c t DisplayTemp_OUT Digit_def Char_at_def CharLen_def)
qed

text \<open>
  Claim C10, as amended. The unit index \<open>celsius % 10\<close> of slot 1 is a digit, and so inside
  the table, whenever the absolute difference fits the 16-bit \<open>celsius\<close> (kelvin at most
  33040). The index \<open>celsius / 10\<close> of slot 0, used when kelvin is at least 273, is inside
  the table exactly when kelvin is below 423, that is below 150 degrees; from 423 K on it
  is 15 or more, outside the table. So for every input with kelvin below 423 all the reads
  of the temperature renderer are inside the table.
\<close>

theorem temp_indices_in_table:
  "(temp_kelvin (TEMPSENSE1 inp) (TEMPSENSE0 inp) (ADC0_RES inp) \<le> 33040 \<longrightarrow>
      0 \<le> temp_units_index (temp_celsius (temp_kelvin (TEMPSENSE1 inp) (TEMPSENSE0 inp) (ADC0_RES inp)))
      \<and> temp_units_index (temp_celsius (temp_kelvin (TEMPSENSE1 inp) (TEMPSENSE0 inp) (ADC0_RES inp))) < 10)
   \<and> (273 \<le> temp_kelvin (TEMPSENSE1 inp) (TEMPSENSE0 inp) (ADC0_RES inp)
        \<and> temp_kelvin (TEMPSENSE1 inp) (TEMPSENSE0 inp) (ADC0_RES inp) < 423 \<longrightarrow>
      0 \<le> temp_tens_index (temp_celsius (temp_kelvin (TEMPSENSE1 inp) (TEMPSENSE0 inp) (ADC0_RES inp)))
      \<and> temp_tens_index (temp_celsius (temp_kelvin (TEMPSENSE1 inp) (TEMPSENSE0 inp) (ADC0_RES inp))) < CharLen)
   \<and> (423 \<le> temp_kelvin (TEMPSENSE1 inp) (TEMPSENSE0 inp) (ADC0_RES inp)
        \<and> temp_kelvin (TEMPSENSE1 inp) (TEMPSENSE0 inp) (ADC0_RES inp) \<le> 33040 \<longrightarrow>
      CharLen \<le> temp_tens_index (temp_celsius (temp_kelvin (TEMPSENSE1 inp) (TEMPSENSE0 inp) (ADC0_RES inp)))
      \<and> OUT (DisplayTemp inp s) (Digit ! 0) = None)
   \<and> (temp_kelvin (TEMPSENSE1 inp) (TEMPSENSE0 inp) (ADC0_RES inp) < 423 \<longrightarrow>
      (\<forall>p. OUT (DisplayTemp inp s) p = None \<longrightarrow> OUT s p = None))"
proof -
  let ?K = "temp_kelvin (TEMPSENSE1 inp) (TEMPSENSE0 inp) (ADC0_RES inp)"
  let ?c = "temp_celsius ?K"
  have n: "0 \<le> uint ?K" by simp
  have units: "0 \<le> temp_units_index ?c \<and> temp_units_index ?c < 10" if "?K \<le> 33040"
  proof -
    have "uint ?K \<le> 33040" using that by (simp add: word_le_def)
    then show ?thesis by (simp add: temp_indices)
  qed
  have tens: "0 \<le> temp_tens_index ?c \<and> temp_tens_index ?c < CharLen"
    if "273 \<le> ?K \<and> ?K < 423"
  proof -
    have r: "273 \<le> uint ?K" "uint ?K < 423"
      using that by (simp_all add: word_le_def word_less_def)
    then have "uint ?K \<le> 33040" by simp
    then have "temp_tens_index ?c = \<bar>uint ?K - 273\<bar> div 10" by (rule temp_indices)
    moreover have "\<bar>uint ?K - 273\<bar> = uint ?K - 273" using r by simp
    moreover have "(uint ?K - 273) div 10 < 15" "0 \<le> (uint ?K - 273) div 10" using r by simp_all
    ultimately show ?thesis by (simp add: CharLen_def)
  qed
  have out: "CharLen \<le> temp_tens_index ?c \<and> OUT (DisplayTemp inp s) (Digit ! 0) = None"
    if "423 \<le> ?K \<and> ?K \<le> 33040"
  proof -
    have r: "423 \<le> uint ?K" "uint ?K \<le> 33040"
      using that by (simp_all add: word_le_def)
    have "temp_tens_index ?c = \<bar>uint ?K - 273\<bar> div 10" using r(2) by (rule temp_indices)
    moreover have "\<bar>uint ?K - 273\<bar> = uint ?K - 273" using r by simp
    moreover have "15 \<le> (uint ?K - 273) div 10" using r by simp
    ultimately have t: "CharLen \<le> temp_tens_index ?c" by (simp add: CharLen_def)
    have "\<not> ?K < 273" using r by (simp add: word_less_def)
    then show ?thesis using t by (simp add: DisplayTemp_OUT Digit_def Char_at_def)
  qed
  have safe: "\<forall>p. OUT (DisplayTemp inp s) p = None \<longrightarrow> OUT s p = None" if "?K < 423"
  proof -
    have l: "uint ?K < 423" using that by (simp add: word_less_def)
    then have "?K \<le> 33040" by (simp add: word_le_def)
    note u = units [OF this]
    have t: "0 \<le> temp_tens_index ?c \<and> temp_tens_index ?c < CharLen" if "\<not> ?K < 273"
      using that \<open>?K < 423\<close> by (intro tens) simp
    show ?thesis
      using u t
      by (auto simp: DisplayTemp_OUT Char_at_def CharLen_def Minus_def Degree_def Celsius_def)
  qed
  show ?thesis using units tens out safe by blast
qed

theorem temp_indices_in_table_witness:
  "temp_kelvin 1732 1000 500 = 301
   \<and> temp_tens_index (temp_celsius (temp_kelvin 1732 1000 500)) < CharLen
   \<and> temp_units_index (temp_celsius (temp_kelvin 1732 1000 500)) < 10
   \<and> OUT (DisplayTemp \<lparr>PORTE_IN = 0xFF, ADC0_RES = 500, TEMPSENSE0 = 1000, TEMPSENSE1 = 1732\<rparr> init)
        (Digit ! 0) \<noteq> None
   \<and> temp_kelvin 1732 1000 0 = 423
   \<and> CharLen \<le> temp_tens_index (temp_celsius (temp_kelvin 1732 1000 0))"
proof -
  have k: "temp_kelvin 1732 1000 500 = 301" "temp_kelvin 1732 1000 0 = 423"
    by (simp_all add: temp_kelvin_def drop_bit_eq_div)
  show ?thesis
    using temp_indices_in_table
      [of "\<lparr>PORTE_IN = 0xFF, ADC0_RES = 500, TEMPSENSE0 = 1000, TEMPSENSE1 = 1732\<rparr>" init]
      temp_indices_in_table
      [of "\<lparr>PORTE_IN = 0xFF, ADC0_RES = 0, TEMPSENSE0 = 1000, TEMPSENSE1 = 1732\<rparr>" init]
    by (simp add: k init_def Digit_def) 
qed


lemma temp_kelvin_zero_delta: "temp_kelvin offset slope offset = 0"
proof -
  have "unat (temp_kelvin offset slope offset) = 0" unfolding unat_temp_kelvin by simp
  then show ?thesis by (simp add: unat_eq_0)
qed

text \<open>
  Claim C8 as stated fails in its last part: with the sample equal to the offset the
  result is 0 K and \<open>celsius = 273\<close>, and the renderer stores the minus glyph, the single
  digit 3 (\<open>celsius % 10\<close>), the degree glyph and C. The digit 7 is stored nowhere: below
  273 K slot 0 holds the sign and the tens digit is not shown.
\<close>

theorem temp_zero_delta_shows_one_digit:
  "temp_kelvin 3000 4000 3000 = 0
   \<and> temp_celsius (temp_kelvin 3000 4000 3000) = 273
   \<and> map (OUT (DisplayTemp \<lparr>PORTE_IN = 0xFF, ADC0_RES = 3000, TEMPSENSE0 = 4000, TEMPSENSE1 = 3000\<rparr>
              init)) Digit
       = [Char_at Minus, Char_at 3, Char_at Degree, Char_at Celsius]
   \<and> Char_at 7 \<notin> set (map (OUT (DisplayTemp
         \<lparr>PORTE_IN = 0xFF, ADC0_RES = 3000, TEMPSENSE0 = 4000, TEMPSENSE1 = 3000\<rparr> init)) Digit)"
proof -
  have k: "temp_kelvin 3000 4000 3000 = 0" by (simp add: temp_kelvin_def drop_bit_eq_div)
  have c: "temp_celsius 0 = 273" using temp_celsius_eq [of 0] by simp
  have u: "temp_units_index 273 = 3" by (simp add: temp_units_index_def sdiv_smod_nonneg)
  show ?thesis
    by (simp add: k c u DisplayTemp_OUT Digit_def Char_at_def CharLen_def Char_def
        Minus_def Degree_def Celsius_def)
qed

text \<open>
  Claim C8, as amended. Line 112 multiplies the 16-bit difference \<open>offset - sample\<close>
  (an \<^verbatim>\<open>unsigned int\<close> difference, the plain difference when the sample does not exceed
  the offset) by the slope in 32 bits; product and bias never exceed 32 bits, so kelvin
  is \<open>(difference * slope + 2048) div 4096\<close>, the multiple of 1/4096 rounded to the nearest
  integer (halves upwards) and not truncated. \<open>celsius\<close> is \<open>|kelvin - 273|\<close> as long as that
  fits its 16 bits (kelvin at most 33040). With the sample equal to the offset: 0 K,
  \<open>celsius = 273\<close>, and the slots hold minus, the digit 3, degree and C.
\<close>

theorem temp_conversion:
  "unat ((ucast (offset - adc) :: uint32_t) * ucast slope + 0x0800)
     = unat (offset - adc) * unat slope + 2048
   \<and> unat (temp_kelvin offset slope adc) = (unat (offset - adc) * unat slope + 2048) div 4096
   \<and> 4096 * unat (temp_kelvin offset slope adc) \<le> unat (offset - adc) * unat slope + 2048
   \<and> unat (offset - adc) * unat slope < 4096 * unat (temp_kelvin offset slope adc) + 2048
   \<and> (adc \<le> offset \<longrightarrow> unat (offset - adc) = unat offset - unat adc)
   \<and> (temp_kelvin offset slope adc \<le> 33040 \<longrightarrow>
        temp_celsius (temp_kelvin offset slope adc) = \<bar>uint (temp_kelvin offset slope adc) - 273\<bar>)
   \<and> temp_kelvin offset slope offset = 0
   \<and> temp_celsius (temp_kelvin offset slope offset) = 273
   \<and> (ADC0_RES inp = TEMPSENSE1 inp \<longrightarrow>
        map (OUT (DisplayTemp inp s)) Digit
          = [Char_at Minus, Char_at 3, Char_at Degree, Char_at Celsius])"
proof -
  let ?P = "unat (offset - adc) * unat slope"
  let ?K = "temp_kelvin offset slope adc"
  have 1: "unat ((ucast (offset - adc) :: uint32_t) * ucast slope + 0x0800) = ?P + 2048"
    by (rule temp_product_no_overflow)
  have 2: "unat ?K = (?P + 2048) div 4096" by (rule unat_temp_kelvin)
  have 3: "4096 * unat ?K \<le> ?P + 2048" unfolding 2 by simp
  have "(?P + 2048) mod 4096 < 4096" by simp
  then have "?P + 2048 < 4096 * ((?P + 2048) div 4096) + 4096"
    using div_mult_mod_eq [of "?P + 2048" 4096] by linarith
  then have 4: "?P < 4096 * unat ?K + 2048" unfolding 2 by simp
  have 5: "adc \<le> offset \<longrightarrow> unat (offset - adc) = unat offset - unat adc"
    by (simp add: unat_sub)
  have 6: "?K \<le> 33040 \<longrightarrow> temp_celsius ?K = \<bar>uint ?K - 273\<bar>"
    using temp_celsius_eq [of ?K] by (simp add: word_le_def)
  have 7: "temp_kelvin offset slope offset = 0" by (rule temp_kelvin_zero_delta)
  have 8: "temp_celsius (temp_kelvin offset slope offset) = 273"
    unfolding 7 using temp_celsius_eq [of 0] by simp
  have u: "temp_units_index 273 = 3" by (simp add: temp_units_index_def sdiv_smod_nonneg)
  have 9: "map (OUT (DisplayTemp inp s)) Digit
             = [Char_at Minus, Char_at 3, Char_at Degree, Char_at Celsius]"
    if "ADC0_RES inp = TEMPSENSE1 inp"
    using that temp_kelvin_zero_delta [of "TEMPSENSE1 inp" "TEMPSENSE0 inp"] temp_celsius_eq [of 0]
    by (simp add: DisplayTemp_OUT Digit_def u)
  show ?thesis using 1 2 3 4 5 6 7 8 9 by blast
qed

theorem temp_conversion_witness:
  "(500 :: uint16_t) \<le> 1732
   \<and> unat (temp_kelvin 1732 1000 500) = (1232 * 1000 + 2048) div 4096
   \<and> temp_kelvin 1732 1000 500 \<le> 33040
   \<and> temp_celsius (temp_kelvin 1732 1000 500) = 28
   \<and> temp_kelvin 2048 1 0 = 1
   \<and> ADC0_RES \<lparr>PORTE_IN = 0xFF, ADC0_RES = 3000, TEMPSENSE0 = 4000, TEMPSENSE1 = 3000\<rparr>
       = TEMPSENSE1 \<lparr>PORTE_IN = 0xFF, ADC0_RES = 3000, TEMPSENSE0 = 4000, TEMPSENSE1 = 3000\<rparr>
   \<and> map (OUT (DisplayTemp \<lparr>PORTE_IN = 0xFF, ADC0_RES = 3000, TEMPSENSE0 = 4000, TEMPSENSE1 = 3000\<rparr>
              init)) Digit
       = [Char_at Minus, Char_at 3, Char_at Degree, Char_at Celsius]"
proof -
  have k: "temp_kelvin 1732 1000 500 = 301" "temp_kelvin 2048 1 0 = 1"
    by (simp_all add: temp_kelvin_def drop_bit_eq_div)
  show ?thesis
    using temp_conversion [of 1732 500 1000
        "\<lparr>PORTE_IN = 0xFF, ADC0_RES = 3000, TEMPSENSE0 = 4000, TEMPSENSE1 = 3000\<rparr>" init]
    by (simp add: k)
qed

end
